theory Spec2Isabelle
  imports Complex_Main
begin

section \<open>The load generator \<^verbatim>\<open>http-client.py\<close>\<close>

text \<open>
  The client keeps its statistics in module-level globals: three Python integers, the
  flag \<^verbatim>\<open>running\<close> and \<^verbatim>\<open>start_time\<close>. Python integers are unbounded, so the
  counters are \<^typ>\<open>int\<close>. Clock readings (\<^verbatim>\<open>time.time()\<close>) and the rates computed from
  them are Python floats; they are idealised as exact \<^typ>\<open>real\<close> numbers, so the model
  fixes which expression is evaluated under which guard, not its rounding.
  \<^verbatim>\<open>start_time\<close> is \<^verbatim>\<open>None\<close> only before \<^verbatim>\<open>send_load\<close> runs; all code modelled here
  runs after \<^verbatim>\<open>send_load\<close> has assigned it.
\<close>

subsection \<open>Transport outcome, globals and the statistics queue\<close>

text \<open>
  \<^verbatim>\<open>session.get(url, timeout=timeout)\<close> either returns a response, of which the worker
  reads only \<^verbatim>\<open>status_code\<close>, or raises \<^verbatim>\<open>requests.exceptions.RequestException\<close>
  (connection refused, timeout, DNS failure, protocol error), or raises an exception of
  another class, which the \<^verbatim>\<open>except\<close> clause of line 45 does not catch (a \<^verbatim>\<open>ValueError\<close>
  for a timeout of 0, which \<^verbatim>\<open>--timeout\<close> accepts, is one).
\<close>

datatype outcome = Response int | RequestException | Other_exception

text \<open>
  The branch of the \<^verbatim>\<open>try\<close> statement a worker is in once the request has been answered:
  after line 31 with the status code, or in the \<^verbatim>\<open>except\<close> clause.
\<close>

datatype branch = After_response int | After_exception

record globals =
  total_requests :: int
  successful_requests :: int
  failed_requests :: int
  running :: bool
  start_time :: real

text \<open>
  The tuple \<^verbatim>\<open>(thread_id, status_code, time.time())\<close> a worker puts on the queue.
\<close>

type_synonym stats_item = "nat \<times> int \<times> real"

text \<open>
  \<^verbatim>\<open>queue.Queue(maxsize)\<close> of the standard library: a FIFO of items with a bound. A bound
  of zero or less means no bound. \<^verbatim>\<open>put(item)\<close> with its default arguments
  (\<^verbatim>\<open>block=True, timeout=None\<close>) waits while the queue is full and appends the item
  otherwise; it never raises \<^verbatim>\<open>queue.Full\<close>. \<open>queue_put\<close> returns \<open>None\<close> where the
  call waits.
\<close>

record py_queue =
  maxsize :: int
  items :: "stats_item list"

definition Queue :: "int \<Rightarrow> py_queue" where
  "Queue m = \<lparr>maxsize = m, items = []\<rparr>"

definition queue_full :: "py_queue \<Rightarrow> bool" where
  "queue_full q \<longleftrightarrow> 0 < maxsize q \<and> maxsize q \<le> int (length (items q))"

definition queue_put :: "py_queue \<Rightarrow> stats_item \<Rightarrow> py_queue option" where
  "queue_put q item = (if queue_full q then None else Some (q\<lparr>items := items q @ [item]\<rparr>))"

subsection \<open>The worker's assignments to the counters\<close>

text \<open>
  The three augmented assignments \<^verbatim>\<open>total_requests += 1\<close>,
  \<^verbatim>\<open>successful_requests += 1\<close> and \<^verbatim>\<open>failed_requests += 1\<close>.
\<close>

definition inc_total :: "globals \<Rightarrow> globals" where
  "inc_total g = g\<lparr>total_requests := total_requests g + 1\<rparr>"

definition inc_successful :: "globals \<Rightarrow> globals" where
  "inc_successful g = g\<lparr>successful_requests := successful_requests g + 1\<rparr>"

definition inc_failed :: "globals \<Rightarrow> globals" where
  "inc_failed g = g\<lparr>failed_requests := failed_requests g + 1\<rparr>"

text \<open>
  Lines 36 to 39: \<^verbatim>\<open>if 200 <= status_code < 400: successful_requests += 1\<close>,
  \<^verbatim>\<open>else: failed_requests += 1\<close>.
\<close>

definition count_status :: "int \<Rightarrow> globals \<Rightarrow> globals" where
  "count_status status_code g =
     (if 200 \<le> status_code \<and> status_code < 400 then inc_successful g else inc_failed g)"

text \<open>
  Lines 36 to 39, and line 49, the last assignment of the \<^verbatim>\<open>except\<close> clause, by the
  branch the worker is in.
\<close>

fun count_outcome :: "branch \<Rightarrow> globals \<Rightarrow> globals" where
  "count_outcome (After_response status_code) g = count_status status_code g"
| "count_outcome After_exception g = inc_failed g"

text \<open>
  The two blocks under \<^verbatim>\<open>with stats_lock:\<close>, lines 33 to 39 after a response and
  lines 46 to 49 after an exception. (\<^verbatim>\<open>local_count\<close> is local to the worker; it is kept
  in the worker's own state below.)
\<close>

definition record_response :: "int \<Rightarrow> globals \<Rightarrow> globals" where
  "record_response status_code g = count_status status_code (inc_total g)"

definition record_exception :: "globals \<Rightarrow> globals" where
  "record_exception g = inc_failed (inc_total g)"

subsection \<open>One iteration of the worker's loop\<close>

text \<open>
  One pass through the body of \<^verbatim>\<open>while running:\<close> in \<^verbatim>\<open>worker\<close>, as a function of the
  request's outcome and of the clock reading taken for the queue item.
  \<^verbatim>\<open>stats_queue\<close> is \<^verbatim>\<open>None\<close> unless detailed statistics were asked for. An iteration
  completes, or waits inside \<^verbatim>\<open>stats_queue.put\<close>, or is left by an exception that line 45
  does not catch: the exception leaves the loop and the function, and the worker's
  thread ends. In each case the globals and the queue it leaves behind are given.
\<close>

datatype iteration =
  Completed globals "py_queue option"
| Blocked_in_put globals "py_queue option"
| Raised_uncaught globals "py_queue option"

definition worker_iteration ::
  "nat \<Rightarrow> outcome \<Rightarrow> real \<Rightarrow> globals \<Rightarrow> py_queue option \<Rightarrow> iteration" where
  "worker_iteration thread_id r now g sq =
     (case r of
        Response status_code \<Rightarrow>
          (let g' = record_response status_code g in
           case sq of
             None \<Rightarrow> Completed g' None
           | Some q \<Rightarrow>
               (case queue_put q (thread_id, status_code, now) of
                  None \<Rightarrow> Blocked_in_put g' (Some q)
                | Some q' \<Rightarrow> Completed g' (Some q')))
      | RequestException \<Rightarrow> Completed (record_exception g) sq
      | Other_exception \<Rightarrow> Raised_uncaught g sq)"

fun globals_of :: "iteration \<Rightarrow> globals" where
  "globals_of (Completed g sq) = g"
| "globals_of (Blocked_in_put g sq) = g"
| "globals_of (Raised_uncaught g sq) = g"

fun queue_of :: "iteration \<Rightarrow> py_queue option" where
  "queue_of (Completed g sq) = sq"
| "queue_of (Blocked_in_put g sq) = sq"
| "queue_of (Raised_uncaught g sq) = sq"

subsection \<open>Console output\<close>

text \<open>
  What the program prints, one constructor for each \<^verbatim>\<open>print\<close> call, holding the values
  the call formats (the formatting itself, \<^verbatim>\<open>:.2f\<close> and \<^verbatim>\<open>:.1f\<close>, is not modelled).
  \<open>Stats_line\<close> holds \<^verbatim>\<open>current_total\<close>, \<^verbatim>\<open>rps\<close>, \<^verbatim>\<open>total_rps\<close>, \<^verbatim>\<open>success_rate\<close> and the
  thread count of line 76.
\<close>

datatype line =
  Starting_line string string
| Using_line int
| Press_line
| Stats_line int real real real int
| Shutting_down_line
| Final_header
| Total_line int
| Successful_line int real
| Failed_line int real
| Time_line real
| Rate_line real

subsection \<open>The reporter's computations\<close>

text \<open>
  The local variables of \<^verbatim>\<open>stats_reporter\<close>. A local that has not been assigned yet is
  unbound in Python and never read before its assignment; it holds 0 here.
\<close>

record reporter_locals =
  last_total :: int
  last_time :: real
  current_time :: real
  current_total :: int
  rps :: real
  total_rps :: real
  success_rate :: real

definition unbound_reporter :: reporter_locals where
  "unbound_reporter =
     \<lparr>last_total = 0, last_time = 0, current_time = 0, current_total = 0,
      rps = 0, total_rps = 0, success_rate = 0\<rparr>"

text \<open>Lines 55 and 56: \<^verbatim>\<open>last_total = 0\<close>, \<^verbatim>\<open>last_time = time.time()\<close>.\<close>

definition reporter_start :: "real \<Rightarrow> reporter_locals \<Rightarrow> reporter_locals" where
  "reporter_start now l = l\<lparr>last_total := 0, last_time := now\<rparr>"

text \<open>
  Lines 60 and 61: \<^verbatim>\<open>current_time = time.time()\<close>, \<^verbatim>\<open>current_total = total_requests\<close>.
  The read of the global takes no lock.
\<close>

definition read_total :: "real \<Rightarrow> globals \<Rightarrow> reporter_locals \<Rightarrow> reporter_locals" where
  "read_total now g l = l\<lparr>current_time := now, current_total := total_requests g\<rparr>"

text \<open>
  Lines 63 to 70. Each division stands under a guard that excludes a zero divisor, so
  none can raise. Line 70 reads the global \<^verbatim>\<open>successful_requests\<close>, again without the
  lock, and line 67 the global \<^verbatim>\<open>start_time\<close>.
\<close>

definition compute_rates :: "globals \<Rightarrow> reporter_locals \<Rightarrow> reporter_locals" where
  "compute_rates g l =
     (let elapsed = current_time l - last_time l;
          requests_since_last = current_total l - last_total l;
          rps' = (if elapsed > 0 then real_of_int requests_since_last / elapsed else 0);
          total_elapsed = current_time l - start_time g;
          total_rps' =
            (if total_elapsed > 0 then real_of_int (current_total l) / total_elapsed else 0);
          success_rate' =
            (if current_total l > 0
             then real_of_int (successful_requests g) / real_of_int (current_total l) * 100
             else 0)
      in l\<lparr>rps := rps', total_rps := total_rps', success_rate := success_rate'\<rparr>)"

text \<open>Lines 72 to 76, given the value of \<^verbatim>\<open>threading.active_count()-1\<close>.\<close>

definition stats_line :: "int \<Rightarrow> reporter_locals \<Rightarrow> line" where
  "stats_line threads l =
     Stats_line (current_total l) (rps l) (total_rps l) (success_rate l) threads"

text \<open>Lines 79 and 80: \<^verbatim>\<open>last_total = current_total\<close>, \<^verbatim>\<open>last_time = current_time\<close>.\<close>

definition remember :: "reporter_locals \<Rightarrow> reporter_locals" where
  "remember l = l\<lparr>last_total := current_total l, last_time := current_time l\<rparr>"

text \<open>
  One pass through the body of the reporter's loop when the globals do not change
  during it: the line printed and the locals carried to the next pass.
\<close>

definition reporter_tick ::
  "real \<Rightarrow> int \<Rightarrow> globals \<Rightarrow> reporter_locals \<Rightarrow> line \<times> reporter_locals" where
  "reporter_tick now threads g l =
     (let l' = compute_rates g (read_total now g l) in (stats_line threads l', remember l'))"

subsection \<open>The interrupt handler and the final report\<close>

datatype py_error = ZeroDivisionError

text \<open>
  Python's \<^verbatim>\<open>a / b\<close> on two integers: \<^verbatim>\<open>ZeroDivisionError\<close> when \<^verbatim>\<open>b\<close> is 0.
  \<open>percent\<close> is the expression \<^verbatim>\<open>a/b*100\<close> of lines 150 and 151.
\<close>

definition truediv :: "int \<Rightarrow> int \<Rightarrow> py_error + real" where
  "truediv a b = (if b = 0 then Inl ZeroDivisionError else Inr (real_of_int a / real_of_int b))"

definition percent :: "int \<Rightarrow> int \<Rightarrow> py_error + real" where
  "percent a b = (case truediv a b of Inl e \<Rightarrow> Inl e | Inr x \<Rightarrow> Inr (x * 100))"

text \<open>Line 146: \<^verbatim>\<open>final_rps = total_requests / total_time if total_time > 0 else 0\<close>.\<close>

definition final_rate :: "int \<Rightarrow> real \<Rightarrow> real" where
  "final_rate n total_time = (if total_time > 0 then real_of_int n / total_time else 0)"

text \<open>
  Lines 144 to 153 when the globals do not change during them: the lines printed, and
  the exception that ends the report, if any. A \<^verbatim>\<open>print\<close> whose argument raises prints
  nothing.
\<close>

definition final_report :: "globals \<Rightarrow> real \<Rightarrow> line list \<times> py_error option" where
  "final_report g end_time =
     (let total_time = end_time - start_time g;
          final_rps = final_rate (total_requests g) total_time;
          printed = [Final_header, Total_line (total_requests g)]
      in case percent (successful_requests g) (total_requests g) of
           Inl e \<Rightarrow> (printed, Some e)
         | Inr sp \<Rightarrow>
             (let printed = printed @ [Successful_line (successful_requests g) sp]
              in case percent (failed_requests g) (total_requests g) of
                   Inl e \<Rightarrow> (printed, Some e)
                 | Inr fp \<Rightarrow>
                     (printed @ [Failed_line (failed_requests g) fp, Time_line total_time,
                        Rate_line final_rps], None)))"

section \<open>The threads of one run\<close>

text \<open>
  \<^verbatim>\<open>send_load\<close> starts one reporter thread and \<^verbatim>\<open>threads\<close> worker threads and then
  waits in the main thread. The threads share the globals, the lock and the queue.
  Each thread is a program counter with its locals; a step of a thread executes the
  source lines of its program counter. A step holds at most one access to a counter or
  to \<^verbatim>\<open>running\<close>, so that every interleaving of these accesses is an interleaving of
  steps (\<^verbatim>\<open>start_time\<close> does not change during a run and is read along). An augmented
  assignment to a counter is one step: every writer holds \<^verbatim>\<open>stats_lock\<close>, and the other
  threads only read. Assignments to locals and clock readings are grouped with the
  access they follow or precede.
\<close>

subsection \<open>Program counters and locals\<close>

text \<open>
  The worker, after lines 24 to 26 (the URL, the session, \<^verbatim>\<open>local_count = 0\<close>):
  \<open>W_while\<close> tests \<^verbatim>\<open>running\<close> (line 28); \<open>W_get\<close> is the call of line 30;
  \<open>W_acquire\<close> enters \<^verbatim>\<open>with stats_lock:\<close> (line 33 or 46); \<open>W_total\<close> executes
  \<^verbatim>\<open>total_requests += 1\<close> and \<^verbatim>\<open>local_count += 1\<close> (lines 34, 35 or 47, 48); \<open>W_count\<close>
  executes lines 36 to 39 or line 49 and leaves the \<^verbatim>\<open>with\<close> block; \<open>W_put\<close> executes
  lines 42 and 43; \<open>W_done\<close> is the end of the thread, by the end of the loop or by an
  exception that is not caught (its traceback goes to the standard error stream, which
  is not modelled). The branch and the status code are carried where the following lines
  need them.
\<close>

datatype worker_pc =
  W_while | W_get | W_acquire branch | W_total branch | W_count branch | W_put int | W_done

record worker_state =
  wpc :: worker_pc
  local_count :: int

text \<open>
  The reporter: \<open>R_init\<close> executes lines 55 and 56, \<open>R_while\<close> tests \<^verbatim>\<open>running\<close>
  (line 58), \<open>R_sleep\<close> executes lines 59 to 61, \<open>R_rates\<close> lines 63 to 70, \<open>R_print\<close>
  lines 72 to 80.
\<close>

datatype reporter_pc = R_init | R_while | R_sleep | R_rates | R_print | R_done

text \<open>
  The main thread, from line 134 on: \<open>M_poll\<close> is the loop of lines 134 and 135;
  \<open>M_join i\<close> is the \<^verbatim>\<open>join\<close> of worker \<open>i\<close> (lines 140, 141), which returns when the
  worker has ended or after one second, whichever is first, and the end of the \<^verbatim>\<open>for\<close>
  loop when \<open>i\<close> is the number of workers; \<open>M_rate\<close> executes lines 144 to 148; \<open>M_total\<close> line 149. Line 150 reads \<^verbatim>\<open>successful_requests\<close> twice and then
  \<^verbatim>\<open>total_requests\<close>, at \<open>M_succ_a\<close>, \<open>M_succ_b\<close> and \<open>M_succ_c\<close>; line 151 does the same
  with \<^verbatim>\<open>failed_requests\<close>. \<open>M_tail\<close> executes lines 152 and 153. \<open>M_raised\<close> is the end
  of the process by an uncaught exception, \<open>M_exit\<close> its normal end. The handler
  installed at line 110 replaces the one that raises \<^verbatim>\<open>KeyboardInterrupt\<close>, so the
  \<^verbatim>\<open>except\<close> branch of line 136 has no step.
\<close>

datatype main_pc =
  M_poll | M_join nat | M_rate | M_total
| M_succ_a | M_succ_b | M_succ_c | M_fail_a | M_fail_b | M_fail_c
| M_tail | M_exit | M_raised py_error

record main_locals =
  end_time :: real
  total_time :: real
  final_rps :: real
  shown :: int
  dividend :: int

definition unbound_main :: main_locals where
  "unbound_main = \<lparr>end_time = 0, total_time = 0, final_rps = 0, shown = 0, dividend = 0\<rparr>"

record sys =
  glob :: globals
  stats_lock :: "nat option"
  stats_queue :: "py_queue option"
  workers :: "worker_state list"
  rpc :: reporter_pc
  rloc :: reporter_locals
  mpc :: main_pc
  mloc :: main_locals
  console :: "line list"

subsection \<open>The start of a run\<close>

text \<open>
  The state when \<^verbatim>\<open>send_load\<close> reaches line 134: the counters reset (lines 103 to 107,
  \<open>now\<close> being the clock reading of line 107), the queue created when \<^verbatim>\<open>detailed\<close>
  (line 113), the three lines printed (115 to 117), the reporter and \<^verbatim>\<open>range(threads)\<close>
  workers started, each worker with \<^verbatim>\<open>local_count = 0\<close> at its loop.
\<close>

definition send_load_start :: "string \<Rightarrow> string \<Rightarrow> int \<Rightarrow> bool \<Rightarrow> real \<Rightarrow> sys" where
  "send_load_start server_ip path threads detailed now =
     \<lparr>glob = \<lparr>total_requests = 0, successful_requests = 0, failed_requests = 0,
               running = True, start_time = now\<rparr>,
      stats_lock = None,
      stats_queue = (if detailed then Some (Queue 10000) else None),
      workers = replicate (nat threads) \<lparr>wpc = W_while, local_count = 0\<rparr>,
      rpc = R_init,
      rloc = unbound_reporter,
      mpc = M_poll,
      mloc = unbound_main,
      console = [Starting_line server_ip path, Using_line threads, Press_line]\<rparr>"

subsection \<open>Steps\<close>

text \<open>
  \<^verbatim>\<open>handle_sigint\<close>: print the notice, then \<^verbatim>\<open>running = False\<close>. Python runs a signal
  handler in the main thread between two of its instructions.
\<close>

definition handle_sigint :: "sys \<Rightarrow> sys" where
  "handle_sigint s =
     s\<lparr>console := console s @ [Shutting_down_line], glob := (glob s)\<lparr>running := False\<rparr>\<rparr>"

definition set_worker :: "nat \<Rightarrow> worker_state \<Rightarrow> sys \<Rightarrow> sys" where
  "set_worker i w s = s\<lparr>workers := (workers s)[i := w]\<rparr>"

text \<open>
  A step of worker \<open>i\<close>. \<open>r\<close> is what \<^verbatim>\<open>session.get\<close> gives if the step is the request;
  \<open>now\<close> is the clock if the step reads it. \<open>None\<close>: the worker cannot step (it does not
  exist, it has ended, it waits for the lock, or it waits in \<^verbatim>\<open>put\<close>).
\<close>

definition worker_step :: "nat \<Rightarrow> real \<Rightarrow> outcome \<Rightarrow> sys \<Rightarrow> sys option" where
  "worker_step i now r s =
     (if length (workers s) \<le> i then None
      else
        let w = workers s ! i in
        case wpc w of
          W_while \<Rightarrow>
            Some (set_worker i (w\<lparr>wpc := (if running (glob s) then W_get else W_done)\<rparr>) s)
        | W_get \<Rightarrow>
            Some (set_worker i
                    (w\<lparr>wpc := (case r of Response status_code \<Rightarrow> W_acquire (After_response status_code)
                                | RequestException \<Rightarrow> W_acquire After_exception
                                | Other_exception \<Rightarrow> W_done)\<rparr>) s)
        | W_acquire r' \<Rightarrow>
            (case stats_lock s of
               None \<Rightarrow> Some (set_worker i (w\<lparr>wpc := W_total r'\<rparr>) (s\<lparr>stats_lock := Some i\<rparr>))
             | Some j \<Rightarrow> None)
        | W_total r' \<Rightarrow>
            Some (set_worker i \<lparr>wpc = W_count r', local_count = local_count w + 1\<rparr>
                    (s\<lparr>glob := inc_total (glob s)\<rparr>))
        | W_count r' \<Rightarrow>
            Some (set_worker i
                    (w\<lparr>wpc := (case r' of After_response status_code \<Rightarrow> W_put status_code
                                | After_exception \<Rightarrow> W_while)\<rparr>)
                    (s\<lparr>glob := count_outcome r' (glob s), stats_lock := None\<rparr>))
        | W_put status_code \<Rightarrow>
            (case stats_queue s of
               None \<Rightarrow> Some (set_worker i (w\<lparr>wpc := W_while\<rparr>) s)
             | Some q \<Rightarrow>
                 (case queue_put q (i, status_code, now) of
                    None \<Rightarrow> None
                  | Some q' \<Rightarrow>
                      Some (set_worker i (w\<lparr>wpc := W_while\<rparr>) (s\<lparr>stats_queue := Some q'\<rparr>))))
        | W_done \<Rightarrow> None)"

text \<open>
  \<^verbatim>\<open>threading.active_count()\<close>: the main thread, the reporter and the workers that have
  not ended.
\<close>

definition active_count :: "sys \<Rightarrow> int" where
  "active_count s =
     1 + (if rpc s = R_done then 0 else 1)
       + int (length (filter (\<lambda>w. wpc w \<noteq> W_done) (workers s)))"

definition reporter_step :: "real \<Rightarrow> sys \<Rightarrow> sys option" where
  "reporter_step now s =
     (case rpc s of
        R_init \<Rightarrow> Some (s\<lparr>rloc := reporter_start now (rloc s), rpc := R_while\<rparr>)
      | R_while \<Rightarrow> Some (s\<lparr>rpc := (if running (glob s) then R_sleep else R_done)\<rparr>)
      | R_sleep \<Rightarrow> Some (s\<lparr>rloc := read_total now (glob s) (rloc s), rpc := R_rates\<rparr>)
      | R_rates \<Rightarrow> Some (s\<lparr>rloc := compute_rates (glob s) (rloc s), rpc := R_print\<rparr>)
      | R_print \<Rightarrow>
          Some (s\<lparr>console := console s @ [stats_line (active_count s - 1) (rloc s)],
                  rloc := remember (rloc s), rpc := R_while\<rparr>)
      | R_done \<Rightarrow> None)"

text \<open>
  The third read of line 150 or 151 (\<^verbatim>\<open>total_requests\<close>), the division, and the
  \<^verbatim>\<open>print\<close> if the division did not raise.
\<close>

definition print_percent ::
  "(int \<Rightarrow> real \<Rightarrow> line) \<Rightarrow> main_pc \<Rightarrow> sys \<Rightarrow> sys" where
  "print_percent mk next_pc s =
     (case percent (dividend (mloc s)) (total_requests (glob s)) of
        Inl e \<Rightarrow> s\<lparr>mpc := M_raised e\<rparr>
      | Inr p \<Rightarrow> s\<lparr>console := console s @ [mk (shown (mloc s)) p], mpc := next_pc\<rparr>)"

definition main_step :: "real \<Rightarrow> sys \<Rightarrow> sys option" where
  "main_step now s =
     (case mpc s of
        M_poll \<Rightarrow> Some (s\<lparr>mpc := (if running (glob s) then M_poll else M_join 0)\<rparr>)
      | M_join i \<Rightarrow>
          Some (s\<lparr>mpc := (if i < length (workers s) then M_join (Suc i) else M_rate)\<rparr>)
      | M_rate \<Rightarrow>
          Some (s\<lparr>mloc := (mloc s)\<lparr>end_time := now, total_time := now - start_time (glob s),
                    final_rps := final_rate (total_requests (glob s)) (now - start_time (glob s))\<rparr>,
                  console := console s @ [Final_header], mpc := M_total\<rparr>)
      | M_total \<Rightarrow>
          Some (s\<lparr>console := console s @ [Total_line (total_requests (glob s))],
                  mpc := M_succ_a\<rparr>)
      | M_succ_a \<Rightarrow>
          Some (s\<lparr>mloc := (mloc s)\<lparr>shown := successful_requests (glob s)\<rparr>, mpc := M_succ_b\<rparr>)
      | M_succ_b \<Rightarrow>
          Some (s\<lparr>mloc := (mloc s)\<lparr>dividend := successful_requests (glob s)\<rparr>, mpc := M_succ_c\<rparr>)
      | M_succ_c \<Rightarrow> Some (print_percent Successful_line M_fail_a s)
      | M_fail_a \<Rightarrow>
          Some (s\<lparr>mloc := (mloc s)\<lparr>shown := failed_requests (glob s)\<rparr>, mpc := M_fail_b\<rparr>)
      | M_fail_b \<Rightarrow>
          Some (s\<lparr>mloc := (mloc s)\<lparr>dividend := failed_requests (glob s)\<rparr>, mpc := M_fail_c\<rparr>)
      | M_fail_c \<Rightarrow> Some (print_percent Failed_line M_tail s)
      | M_tail \<Rightarrow>
          Some (s\<lparr>console := console s @
                    [Time_line (total_time (mloc s)), Rate_line (final_rps (mloc s))],
                  mpc := M_exit\<rparr>)
      | M_exit \<Rightarrow> None
      | M_raised e \<Rightarrow> None)"

text \<open>
  What a schedule is made of: a step of one thread, with what the outside world gives
  that step (the clock, the answer to the request), or the delivery of SIGINT. When the
  main thread has ended the process is over: the other threads are daemons.
\<close>

datatype action =
  Main_step real
| Reporter_step real
| Worker_step nat real outcome
| Sigint

fun ended :: "main_pc \<Rightarrow> bool" where
  "ended M_exit = True"
| "ended (M_raised e) = True"
| "ended pc = False"

definition step :: "action \<Rightarrow> sys \<Rightarrow> sys option" where
  "step a s =
     (if ended (mpc s) then None
      else
        case a of
          Main_step now \<Rightarrow> main_step now s
        | Reporter_step now \<Rightarrow> reporter_step now s
        | Worker_step i now r \<Rightarrow> worker_step i now r s
        | Sigint \<Rightarrow> Some (handle_sigint s))"

fun run :: "action list \<Rightarrow> sys \<Rightarrow> sys option" where
  "run [] s = Some s"
| "run (a # as) s = (case step a s of None \<Rightarrow> None | Some s' \<Rightarrow> run as s')"

text \<open>
  One uninterrupted pass of worker \<open>i\<close> through its loop, as a schedule: the test of
  \<^verbatim>\<open>running\<close>, the request with outcome \<open>r\<close>, the three steps of the \<^verbatim>\<open>with\<close> block
  and, after a response, the \<^verbatim>\<open>put\<close>. After an exception that is not caught there is
  nothing more: the thread has ended.
\<close>

fun attempt :: "nat \<Rightarrow> real \<Rightarrow> outcome \<Rightarrow> action list" where
  "attempt i now (Response status_code) = replicate 6 (Worker_step i now (Response status_code))"
| "attempt i now RequestException = replicate 5 (Worker_step i now RequestException)"
| "attempt i now Other_exception = replicate 2 (Worker_step i now Other_exception)"

subsection \<open>Invariants of a run\<close>

text \<open>
  A worker is inside a \<^verbatim>\<open>with stats_lock:\<close> block at \<open>W_total\<close> and at \<open>W_count\<close>; at
  \<open>W_count\<close> it has added to \<^verbatim>\<open>total_requests\<close> and not yet to one of the other two
  counters.
\<close>

fun in_section :: "worker_pc \<Rightarrow> bool" where
  "in_section (W_total r) = True"
| "in_section (W_count r) = True"
| "in_section pc = False"

fun half_counted :: "worker_pc \<Rightarrow> bool" where
  "half_counted (W_count r) = True"
| "half_counted pc = False"

definition lock_inv :: "sys \<Rightarrow> bool" where
  "lock_inv s \<longleftrightarrow>
     (\<forall>j<length (workers s). in_section (wpc (workers s ! j)) = (stats_lock s = Some j)) \<and>
     (case stats_lock s of None \<Rightarrow> True | Some i \<Rightarrow> i < length (workers s))"

definition pending :: "sys \<Rightarrow> int" where
  "pending s =
     (case stats_lock s of
        None \<Rightarrow> 0
      | Some i \<Rightarrow> if half_counted (wpc (workers s ! i)) then 1 else 0)"

definition counters_inv :: "sys \<Rightarrow> bool" where
  "counters_inv s \<longleftrightarrow>
     total_requests (glob s) =
       successful_requests (glob s) + failed_requests (glob s) + pending s \<and>
     0 \<le> successful_requests (glob s) \<and> 0 \<le> failed_requests (glob s) \<and>
     total_requests (glob s) = sum_list (map local_count (workers s))"

text \<open>
  Between its read of \<^verbatim>\<open>total_requests\<close> and its \<^verbatim>\<open>print\<close> the reporter holds a
  value the counter had.
\<close>

definition reporter_inv :: "sys \<Rightarrow> bool" where
  "reporter_inv s \<longleftrightarrow>
     (if rpc s = R_rates \<or> rpc s = R_print
      then 0 \<le> current_total (rloc s) \<and> current_total (rloc s) \<le> total_requests (glob s)
      else True)"

definition run_inv :: "sys \<Rightarrow> bool" where
  "run_inv s \<longleftrightarrow> lock_inv s \<and> counters_inv s \<and> reporter_inv s"

subsection \<open>Requests answered and requests counted\<close>

text \<open>
  A step answers a request when it is the \<^verbatim>\<open>session.get\<close> of a worker and returns a
  response or raises \<^verbatim>\<open>RequestException\<close>. \<open>requests_answered\<close> counts these steps along
  a schedule. A worker at \<open>W_acquire\<close> or \<open>W_total\<close> holds an answer that it has not yet
  added to \<^verbatim>\<open>total_requests\<close>; \<open>uncounted\<close> is the number of such workers.
\<close>

definition answers :: "action \<Rightarrow> sys \<Rightarrow> bool" where
  "answers a s =
     (case a of
        Worker_step i now r \<Rightarrow>
          i < length (workers s) \<and> wpc (workers s ! i) = W_get \<and> r \<noteq> Other_exception
      | Main_step now \<Rightarrow> False
      | Reporter_step now \<Rightarrow> False
      | Sigint \<Rightarrow> False)"

fun requests_answered :: "action list \<Rightarrow> sys \<Rightarrow> int" where
  "requests_answered [] s = 0"
| "requests_answered (a # as) s =
     (case step a s of
        None \<Rightarrow> 0
      | Some s' \<Rightarrow> (if answers a s then 1 else 0) + requests_answered as s')"

fun holds_answer :: "worker_pc \<Rightarrow> bool" where
  "holds_answer (W_acquire b) = True"
| "holds_answer (W_total b) = True"
| "holds_answer pc = False"

definition uncounted :: "sys \<Rightarrow> int" where
  "uncounted s = sum_list (map (\<lambda>w. if holds_answer (wpc w) then 1 else 0) (workers s))"

subsection \<open>The specification's words\<close>

text \<open>
  The specification's classification of an outcome: a success exactly when a response
  was received with a status code in [200,400).
\<close>

definition spec_success :: "outcome \<Rightarrow> bool" where
  "spec_success r =
     (case r of Response status_code \<Rightarrow> 200 \<le> status_code \<and> status_code < 400
      | RequestException \<Rightarrow> False
      | Other_exception \<Rightarrow> False)"

text \<open>
  The specification's failures: any other status code, and any transport-level failure
  (connection refused, timeout, DNS failure, protocol error), which \<^verbatim>\<open>requests\<close> raises
  as \<^verbatim>\<open>RequestException\<close>.
\<close>

definition spec_failure :: "outcome \<Rightarrow> bool" where
  "spec_failure r =
     (case r of Response status_code \<Rightarrow> \<not> (200 \<le> status_code \<and> status_code < 400)
      | RequestException \<Rightarrow> True
      | Other_exception \<Rightarrow> False)"

text \<open>
  The specification's formulas for one reporter tick, from the observed total and
  success count, the remembered previous sample and the clock.
\<close>

definition spec_instant_rate :: "int \<Rightarrow> int \<Rightarrow> real \<Rightarrow> real \<Rightarrow> real" where
  "spec_instant_rate n lastTotal t lastTime =
     (if t - lastTime \<le> 0 then 0 else real_of_int (n - lastTotal) / (t - lastTime))"

definition spec_avg_rate :: "int \<Rightarrow> real \<Rightarrow> real \<Rightarrow> real" where
  "spec_avg_rate n t startTime =
     (if t - startTime \<le> 0 then 0 else real_of_int n / (t - startTime))"

definition spec_success_rate :: "int \<Rightarrow> int \<Rightarrow> real" where
  "spec_success_rate success n =
     (if n = 0 then 0 else real_of_int success / real_of_int n * 100)"

section \<open>Properties\<close>

subsection \<open>Auxiliary facts\<close>

lemmas counter_defs =
  inc_total_def inc_successful_def inc_failed_def count_status_def record_response_def
  record_exception_def

lemma sum_list_local_count_update:
  "i < length ws \<Longrightarrow>
   sum_list (map local_count (ws[i := w])) =
     sum_list (map local_count ws) - local_count (ws ! i) + local_count w"
proof (induction ws arbitrary: i)
  case Nil
  then show ?case by simp
next
  case (Cons a ws)
  then show ?case by (cases i) simp_all
qed

text \<open>The definitions unfolded to evaluate a schedule on a concrete state.\<close>

lemmas step_defs = step_def worker_step_def reporter_step_def main_step_def handle_sigint_def
  set_worker_def print_percent_def percent_def truediv_def final_rate_def active_count_def
  read_total_def compute_rates_def remember_def stats_line_def reporter_start_def
  queue_put_def queue_full_def Queue_def counter_defs Let_def

lemmas start_defs = send_load_start_def unbound_reporter_def unbound_main_def

text \<open>The steps a worker can take, one case for each program counter.\<close>

lemma worker_stepE:
  assumes "worker_step i now r s = Some s'"
  obtains
    (at_while) "i < length (workers s)" "wpc (workers s ! i) = W_while"
      "s' = set_worker i ((workers s ! i)\<lparr>wpc := (if running (glob s) then W_get else W_done)\<rparr>) s"
  | (at_get) "i < length (workers s)" "wpc (workers s ! i) = W_get"
      "s' = set_worker i
              ((workers s ! i)\<lparr>wpc := (case r of
                   Response status_code \<Rightarrow> W_acquire (After_response status_code)
                 | RequestException \<Rightarrow> W_acquire After_exception
                 | Other_exception \<Rightarrow> W_done)\<rparr>) s"
  | (at_acquire) r' where "i < length (workers s)" "wpc (workers s ! i) = W_acquire r'"
      "stats_lock s = None"
      "s' = set_worker i ((workers s ! i)\<lparr>wpc := W_total r'\<rparr>) (s\<lparr>stats_lock := Some i\<rparr>)"
  | (at_total) r' where "i < length (workers s)" "wpc (workers s ! i) = W_total r'"
      "s' = set_worker i \<lparr>wpc = W_count r', local_count = local_count (workers s ! i) + 1\<rparr>
              (s\<lparr>glob := inc_total (glob s)\<rparr>)"
  | (at_count) r' where "i < length (workers s)" "wpc (workers s ! i) = W_count r'"
      "s' = set_worker i
              ((workers s ! i)\<lparr>wpc := (case r' of After_response status_code \<Rightarrow> W_put status_code
                                | After_exception \<Rightarrow> W_while)\<rparr>)
              (s\<lparr>glob := count_outcome r' (glob s), stats_lock := None\<rparr>)"
  | (at_put_none) status_code where "i < length (workers s)"
      "wpc (workers s ! i) = W_put status_code" "stats_queue s = None"
      "s' = set_worker i ((workers s ! i)\<lparr>wpc := W_while\<rparr>) s"
  | (at_put_some) status_code q q' where "i < length (workers s)"
      "wpc (workers s ! i) = W_put status_code" "stats_queue s = Some q"
      "queue_put q (i, status_code, now) = Some q'"
      "s' = set_worker i ((workers s ! i)\<lparr>wpc := W_while\<rparr>) (s\<lparr>stats_queue := Some q'\<rparr>)"
proof (cases "i < length (workers s)")
  case False
  with assms show ?thesis by (simp add: worker_step_def)
next
  case True
  show ?thesis
  proof (cases "wpc (workers s ! i)")
    case W_while
    with assms True at_while show ?thesis by (simp add: worker_step_def Let_def)
  next
    case W_get
    with assms True at_get show ?thesis by (simp add: worker_step_def Let_def)
  next
    case (W_acquire r')
    with assms True at_acquire show ?thesis
      by (simp add: worker_step_def Let_def split: option.splits)
  next
    case (W_total r')
    with assms True at_total show ?thesis by (simp add: worker_step_def Let_def)
  next
    case (W_count r')
    with assms True at_count show ?thesis by (simp add: worker_step_def Let_def)
  next
    case (W_put status_code)
    with assms True at_put_none at_put_some show ?thesis
      by (simp add: worker_step_def Let_def split: option.splits)
  next
    case W_done
    with assms True show ?thesis by (simp add: worker_step_def Let_def)
  qed
qed

subsection \<open>The lock and the counters\<close>

lemma lock_inv_holder:
  "lock_inv s \<Longrightarrow> j < length (workers s) \<Longrightarrow> in_section (wpc (workers s ! j)) \<Longrightarrow>
   stats_lock s = Some j"
  by (simp add: lock_inv_def)

lemma lock_inv_free:
  "lock_inv s \<Longrightarrow> j < length (workers s) \<Longrightarrow> \<not> in_section (wpc (workers s ! j)) \<Longrightarrow>
   stats_lock s \<noteq> Some j"
  by (simp add: lock_inv_def)

lemma lock_inv_worker_step:
  assumes inv: "lock_inv s" and st: "worker_step i now r s = Some s'"
  shows "lock_inv s'"
  using st
proof (cases rule: worker_stepE)
  case at_while
  with inv lock_inv_free [OF inv, of i] show ?thesis
    by (auto simp: lock_inv_def set_worker_def nth_list_update split: option.splits)
next
  case at_get
  with inv lock_inv_free [OF inv, of i] show ?thesis
    by (cases r) (auto simp: lock_inv_def set_worker_def nth_list_update split: option.splits)
next
  case (at_acquire r')
  with inv show ?thesis
    by (auto simp: lock_inv_def set_worker_def nth_list_update)
next
  case (at_total r')
  with inv lock_inv_holder [OF inv, of i] show ?thesis
    by (auto simp: lock_inv_def set_worker_def nth_list_update)
next
  case (at_count r')
  with inv lock_inv_holder [OF inv, of i] show ?thesis
    by (cases r') (auto simp: lock_inv_def set_worker_def nth_list_update)
next
  case (at_put_none status_code)
  with inv lock_inv_free [OF inv, of i] show ?thesis
    by (auto simp: lock_inv_def set_worker_def nth_list_update split: option.splits)
next
  case (at_put_some status_code q q')
  with inv lock_inv_free [OF inv, of i] show ?thesis
    by (auto simp: lock_inv_def set_worker_def nth_list_update split: option.splits)
qed

lemma counters_inv_worker_step:
  assumes inv: "lock_inv s" and c: "counters_inv s" and st: "worker_step i now r s = Some s'"
  shows "counters_inv s'"
  using st
proof (cases rule: worker_stepE)
  case at_while
  with c lock_inv_free [OF inv, of i] show ?thesis
    by (auto simp: counters_inv_def pending_def set_worker_def nth_list_update
        sum_list_local_count_update split: option.splits)
next
  case at_get
  with c lock_inv_free [OF inv, of i] show ?thesis
    by (cases r) (auto simp: counters_inv_def pending_def set_worker_def nth_list_update
        sum_list_local_count_update split: option.splits)
next
  case (at_acquire r')
  with c show ?thesis
    by (auto simp: counters_inv_def pending_def set_worker_def nth_list_update
        sum_list_local_count_update)
next
  case (at_total r')
  with c lock_inv_holder [OF inv, of i] show ?thesis
    by (auto simp: counters_inv_def pending_def set_worker_def nth_list_update
        sum_list_local_count_update inc_total_def)
next
  case (at_count r')
  with c lock_inv_holder [OF inv, of i] show ?thesis
    by (cases r') (auto simp: counters_inv_def pending_def set_worker_def nth_list_update
        sum_list_local_count_update counter_defs)
next
  case (at_put_none status_code)
  with c lock_inv_free [OF inv, of i] show ?thesis
    by (auto simp: counters_inv_def pending_def set_worker_def nth_list_update
        sum_list_local_count_update split: option.splits)
next
  case (at_put_some status_code q q')
  with c lock_inv_free [OF inv, of i] show ?thesis
    by (auto simp: counters_inv_def pending_def set_worker_def nth_list_update
        sum_list_local_count_update split: option.splits)
qed

subsection \<open>What each step leaves unchanged, and what it can only increase\<close>


lemma worker_step_frame:
  assumes "worker_step i now r s = Some s'"
  shows "rpc s' = rpc s" "rloc s' = rloc s" "mpc s' = mpc s" "mloc s' = mloc s" "console s' = console s"
    "running (glob s') = running (glob s)" "start_time (glob s') = start_time (glob s)"
    "length (workers s') = length (workers s)"
  using assms
  by (cases rule: worker_stepE;
      simp add: set_worker_def counter_defs split: outcome.splits branch.splits)+

lemma worker_step_mono:
  assumes "worker_step i now r s = Some s'"
  shows "total_requests (glob s) \<le> total_requests (glob s') \<and>
         successful_requests (glob s) \<le> successful_requests (glob s') \<and>
         failed_requests (glob s) \<le> failed_requests (glob s')"
  using assms
proof (cases rule: worker_stepE)
  case (at_count r')
  then show ?thesis by (cases r') (simp_all add: set_worker_def counter_defs)
qed (simp_all add: set_worker_def counter_defs)

lemma reporter_step_glob:
  assumes "reporter_step now s = Some s'"
  shows "glob s' = glob s" "stats_lock s' = stats_lock s" "workers s' = workers s" "stats_queue s' = stats_queue s"
    "mpc s' = mpc s"
  using assms by (auto simp: reporter_step_def split: reporter_pc.splits)

lemma main_step_glob:
  assumes "main_step now s = Some s'"
  shows "glob s' = glob s" "stats_lock s' = stats_lock s" "workers s' = workers s" "stats_queue s' = stats_queue s"
    "rpc s' = rpc s" "rloc s' = rloc s"
  using assms by (auto simp: main_step_def print_percent_def split: main_pc.splits sum.splits)

lemma handle_sigint_glob:
  "total_requests (glob (handle_sigint s)) = total_requests (glob s)"
  "successful_requests (glob (handle_sigint s)) = successful_requests (glob s)"
  "failed_requests (glob (handle_sigint s)) = failed_requests (glob s)"
  "stats_lock (handle_sigint s) = stats_lock s" "workers (handle_sigint s) = workers s" 
  "stats_queue (handle_sigint s) = stats_queue s"
    "rpc (handle_sigint s) = rpc s" "rloc (handle_sigint s) = rloc s"
   "mpc (handle_sigint s) = mpc s"
  by (simp_all add: handle_sigint_def)

lemma step_mono:
  assumes "step a s = Some s'"
  shows "total_requests (glob s) \<le> total_requests (glob s') \<and>
         successful_requests (glob s) \<le> successful_requests (glob s') \<and>
         failed_requests (glob s) \<le> failed_requests (glob s')"
proof (cases a)
  case (Main_step now)
  with assms have "glob s' = glob s" by (auto simp: step_def main_step_glob split: if_splits)
  then show ?thesis by simp
next
  case (Reporter_step now)
  with assms have "glob s' = glob s" by (auto simp: step_def reporter_step_glob split: if_splits)
  then show ?thesis by simp
next
  case (Worker_step i now r)
  with assms have "worker_step i now r s = Some s'" by (simp add: step_def split: if_splits)
  then show ?thesis by (rule worker_step_mono)
next
  case Sigint
  with assms have "s' = handle_sigint s" by (simp add: step_def split: if_splits)
  then show ?thesis by (simp add: handle_sigint_glob)
qed

lemma run_mono:
  "run sched s = Some s' \<Longrightarrow>
     total_requests (glob s) \<le> total_requests (glob s') \<and>
     successful_requests (glob s) \<le> successful_requests (glob s') \<and>
     failed_requests (glob s) \<le> failed_requests (glob s')"
proof (induction sched arbitrary: s)
  case Nil
  then show ?case by simp
next
  case (Cons a sched)
  then obtain s1 where a: "step a s = Some s1" and r: "run sched s1 = Some s'"
    by (auto split: option.splits)
  from step_mono [OF a] Cons.IH [OF r] show ?case by linarith
qed

lemma run_inv_start: "run_inv (send_load_start server_ip path threads detailed now)"
  by (simp add: run_inv_def lock_inv_def counters_inv_def reporter_inv_def send_load_start_def pending_def
      sum_list_replicate)

lemma lock_counters_cong:
  assumes "total_requests (glob s') = total_requests (glob s)"
    "successful_requests (glob s') = successful_requests (glob s)"
    "failed_requests (glob s') = failed_requests (glob s)"
    "stats_lock s' = stats_lock s" "workers s' = workers s"
  shows "lock_inv s' = lock_inv s" "counters_inv s' = counters_inv s"
  using assms by (simp_all add: lock_inv_def counters_inv_def pending_def cong: option.case_cong)

lemma counters_inv_total_nonneg: "counters_inv s \<Longrightarrow> 0 \<le> total_requests (glob s)"
  by (auto simp: counters_inv_def pending_def split: option.splits)

lemma run_inv_step:
  assumes inv: "run_inv s" and st: "step a s = Some s'"
  shows "run_inv s'"
proof (cases a)
  case (Main_step now)
  with st have m: "main_step now s = Some s'" by (simp add: step_def split: if_splits)
  from inv main_step_glob [OF m] show ?thesis
    by (simp add: run_inv_def lock_counters_cong [of s' s] reporter_inv_def)
next
  case (Reporter_step now)
  with st have m: "reporter_step now s = Some s'" by (simp add: step_def split: if_splits)
  from inv have "0 \<le> total_requests (glob s)" by (simp add: run_inv_def counters_inv_total_nonneg)
  with m inv have "reporter_inv s'"
    by (auto simp: run_inv_def reporter_inv_def reporter_step_def read_total_def compute_rates_def Let_def remember_def reporter_start_def
        split: reporter_pc.splits if_splits)
  with inv reporter_step_glob [OF m] show ?thesis
    by (simp add: run_inv_def lock_counters_cong [of s' s])
next
  case (Worker_step i now r)
  with st have w: "worker_step i now r s = Some s'" by (simp add: step_def split: if_splits)
  from inv worker_step_mono [OF w] worker_step_frame [OF w] have "reporter_inv s'"
    by (auto simp: run_inv_def reporter_inv_def split: if_splits)
  with inv lock_inv_worker_step [OF _ w] counters_inv_worker_step [OF _ _ w] show ?thesis
    by (simp add: run_inv_def)
next
  case Sigint
  with st have "s' = handle_sigint s" by (simp add: step_def split: if_splits)
  with inv show ?thesis
    by (simp add: run_inv_def lock_counters_cong [of "handle_sigint s" s] handle_sigint_glob
        reporter_inv_def)
qed

lemma run_inv_run: "run_inv s \<Longrightarrow> run sched s = Some s' \<Longrightarrow> run_inv s'"
proof (induction sched arbitrary: s)
  case Nil
  then show ?case by simp
next
  case (Cons a sched)
  then obtain s1 where a: "step a s = Some s1" and r: "run sched s1 = Some s'"
    by (auto split: option.splits)
  from Cons.IH [OF run_inv_step [OF Cons.prems(1) a] r] show ?case .
qed

subsection \<open>Answered requests are counted once\<close>

lemma sum_list_map_update:
  fixes f :: "'a \<Rightarrow> int"
  shows "i < length ws \<Longrightarrow>
    sum_list (map f (ws[i := w])) = sum_list (map f ws) - f (ws ! i) + f w"
proof (induction ws arbitrary: i)
  case Nil
  then show ?case by simp
next
  case (Cons a ws)
  then show ?case by (cases i) simp_all
qed

lemma worker_step_answered:
  assumes "worker_step i now r s = Some s'"
  shows "total_requests (glob s') + uncounted s' =
           total_requests (glob s) + uncounted s +
           (if wpc (workers s ! i) = W_get \<and> r \<noteq> Other_exception then 1 else 0)"
  using assms
proof (cases rule: worker_stepE)
  case at_get
  then show ?thesis
    by (cases r) (simp_all add: uncounted_def set_worker_def sum_list_map_update)
next
  case (at_count r')
  then show ?thesis
    by (cases r') (simp_all add: uncounted_def set_worker_def sum_list_map_update counter_defs)
qed (simp_all add: uncounted_def set_worker_def sum_list_map_update counter_defs)

lemma step_answered:
  assumes "step a s = Some s'"
  shows "total_requests (glob s') + uncounted s' =
           total_requests (glob s) + uncounted s + (if answers a s then 1 else 0)"
proof (cases a)
  case (Main_step now)
  with assms have "main_step now s = Some s'" by (simp add: step_def split: if_splits)
  from main_step_glob [OF this] Main_step show ?thesis
    by (simp add: uncounted_def answers_def)
next
  case (Reporter_step now)
  with assms have "reporter_step now s = Some s'" by (simp add: step_def split: if_splits)
  from reporter_step_glob [OF this] Reporter_step show ?thesis
    by (simp add: uncounted_def answers_def)
next
  case (Worker_step i now r)
  with assms have w: "worker_step i now r s = Some s'"
    by (simp add: step_def split: if_splits)
  then have "i < length (workers s)"
    by (simp add: worker_step_def split: if_splits)
  with worker_step_answered [OF w] Worker_step show ?thesis
    by (simp add: answers_def)
next
  case Sigint
  with assms have "s' = handle_sigint s" by (simp add: step_def split: if_splits)
  with Sigint show ?thesis
    by (simp add: uncounted_def answers_def handle_sigint_glob)
qed

lemma run_answered:
  "run sched s = Some s' \<Longrightarrow>
   total_requests (glob s') + uncounted s' =
     total_requests (glob s) + uncounted s + requests_answered sched s"
proof (induction sched arbitrary: s)
  case Nil
  then show ?case by simp
next
  case (Cons a sched)
  then obtain s1 where a: "step a s = Some s1" and r: "run sched s1 = Some s'"
    by (auto split: option.splits)
  from step_answered [OF a] Cons.IH [OF r] a show ?case by simp
qed

subsection \<open>Schedules of one thread alone\<close>

lemma run_append:
  "run (xs @ ys) s = (case run xs s of None \<Rightarrow> None | Some s' \<Rightarrow> run ys s')"
  by (induction xs arbitrary: s) (auto split: option.splits)

text \<open>
  A worker that passes through its loop without another thread stepping in between
  does what \<open>worker_iteration\<close> says.
\<close>

lemma attempt_completed:
  assumes "i < length (workers s)" "wpc (workers s ! i) = W_while" "running (glob s)"
    "stats_lock s = None" "\<not> ended (mpc s)"
    and "worker_iteration i r now (glob s) (stats_queue s) = Completed g' q'"
  shows "run (attempt i now r) s =
           Some (s\<lparr>glob := g', stats_queue := q',
                   workers := (workers s)[i := \<lparr>wpc = W_while,
                     local_count = local_count (workers s ! i) + 1\<rparr>]\<rparr>)"
proof (cases r)
  case (Response status_code)
  with assms show ?thesis
    by (auto simp: eval_nat_numeral step_def worker_step_def set_worker_def Let_def
        worker_iteration_def counter_defs split: option.splits)
next
  case RequestException
  with assms show ?thesis
    by (auto simp: eval_nat_numeral step_def worker_step_def set_worker_def Let_def
        worker_iteration_def counter_defs split: option.splits)
next
  case Other_exception
  with assms show ?thesis
    by (simp add: worker_iteration_def)
qed

text \<open>
  An exception that is not caught ends the worker's thread; nothing else changes.
\<close>

lemma attempt_raised:
  assumes "i < length (workers s)" "wpc (workers s ! i) = W_while" "running (glob s)"
    "\<not> ended (mpc s)"
  shows "run (attempt i now Other_exception) s =
           Some (s\<lparr>workers := (workers s)[i := (workers s ! i)\<lparr>wpc := W_done\<rparr>]\<rparr>)"
  using assms
  by (simp add: eval_nat_numeral step_def worker_step_def set_worker_def Let_def)

lemma attempt_blocked:
  assumes "i < length (workers s)" "wpc (workers s ! i) = W_while" "running (glob s)"
    "stats_lock s = None" "\<not> ended (mpc s)"
    and "worker_iteration i r now (glob s) (stats_queue s) = Blocked_in_put g' q'"
  shows "run (attempt i now r) s = None"
proof (cases r)
  case (Response status_code)
  with assms show ?thesis
    by (auto simp: eval_nat_numeral step_def worker_step_def set_worker_def Let_def
        worker_iteration_def counter_defs split: option.splits)
next
  case RequestException
  with assms show ?thesis
    by (simp add: worker_iteration_def)
next
  case Other_exception
  with assms show ?thesis
    by (simp add: worker_iteration_def)
qed

text \<open>
  \<open>n\<close> successful attempts of one worker in detailed mode put \<open>n\<close> items on the queue,
  as long as there is room for them.
\<close>

lemma run_responses:
  assumes "i < length (workers s)" "wpc (workers s ! i) = W_while" "running (glob s)"
    "stats_lock s = None" "\<not> ended (mpc s)" "stats_queue s = Some q"
    "int (length (items q)) + int n \<le> maxsize q" "200 \<le> c" "c < 400"
  shows "run (concat (replicate n (attempt i now (Response c)))) s =
           Some (s\<lparr>glob := (glob s)\<lparr>total_requests := total_requests (glob s) + int n,
                     successful_requests := successful_requests (glob s) + int n\<rparr>,
                   stats_queue := Some (q\<lparr>items := items q @ replicate n (i, c, now)\<rparr>),
                   workers := (workers s)[i := \<lparr>wpc = W_while,
                     local_count = local_count (workers s ! i) + int n\<rparr>]\<rparr>)"
  using assms
proof (induction n arbitrary: s q)
  case 0
  then have "(workers s)[i := \<lparr>wpc = W_while, local_count = local_count (workers s ! i)\<rparr>] =
      workers s"
    by (simp add: list_update_same_conv)
  with 0 show ?case by simp
next
  case (Suc n)
  let ?q = "q\<lparr>items := items q @ [(i, c, now)]\<rparr>"
  let ?g = "record_response c (glob s)"
  let ?s = "s\<lparr>glob := ?g, stats_queue := Some ?q,
               workers := (workers s)[i := \<lparr>wpc = W_while,
                 local_count = local_count (workers s ! i) + 1\<rparr>]\<rparr>"
  from Suc.prems have nf: "\<not> queue_full q" by (simp add: queue_full_def)
  with Suc.prems
  have it: "worker_iteration i (Response c) now (glob s) (stats_queue s) = Completed ?g (Some ?q)"
    by (simp add: worker_iteration_def queue_put_def Let_def)
  from attempt_completed [OF Suc.prems(1-5) it]
  have one: "run (attempt i now (Response c)) s = Some ?s" .
  have rest: "run (concat (replicate n (attempt i now (Response c)))) ?s =
     Some (?s\<lparr>glob := (glob ?s)\<lparr>total_requests := total_requests (glob ?s) + int n,
                     successful_requests := successful_requests (glob ?s) + int n\<rparr>,
                   stats_queue := Some (?q\<lparr>items := items ?q @ replicate n (i, c, now)\<rparr>),
                   workers := (workers ?s)[i := \<lparr>wpc = W_while,
                     local_count = local_count (workers ?s ! i) + int n\<rparr>]\<rparr>)"
    using Suc.prems by (intro Suc.IH) (simp_all add: counter_defs)
  have "run (concat (replicate (Suc n) (attempt i now (Response c)))) s =
          run (concat (replicate n (attempt i now (Response c)))) ?s"
    by (simp add: run_append one del: attempt.simps)
  also note rest
  also have "Some (?s\<lparr>glob := (glob ?s)\<lparr>total_requests := total_requests (glob ?s) + int n,
                     successful_requests := successful_requests (glob ?s) + int n\<rparr>,
                   stats_queue := Some (?q\<lparr>items := items ?q @ replicate n (i, c, now)\<rparr>),
                   workers := (workers ?s)[i := \<lparr>wpc = W_while,
                     local_count = local_count (workers ?s ! i) + int n\<rparr>]\<rparr>) =
     Some (s\<lparr>glob := (glob s)\<lparr>total_requests := total_requests (glob s) + int (Suc n),
                     successful_requests := successful_requests (glob s) + int (Suc n)\<rparr>,
                   stats_queue := Some (q\<lparr>items := items q @ replicate (Suc n) (i, c, now)\<rparr>),
                   workers := (workers s)[i := \<lparr>wpc = W_while,
                     local_count = local_count (workers s ! i) + int (Suc n)\<rparr>]\<rparr>)"
    using Suc.prems by (simp add: counter_defs add.assoc)
  finally show ?case .
qed

text \<open>
  In detailed mode, with nothing taking items off the queue, ten thousand responses
  fill it.
\<close>

lemma queue_fills_up:
  "run (concat (replicate 10000 (attempt 0 t (Response 200))))
     (send_load_start server_ip path 1 True t0) =
   Some ((send_load_start server_ip path 1 True t0)
     \<lparr>glob := \<lparr>total_requests = 10000, successful_requests = 10000, failed_requests = 0,
               running = True, start_time = t0\<rparr>,
      stats_queue := Some \<lparr>maxsize = 10000, items = replicate 10000 (0, 200, t)\<rparr>,
      workers := [\<lparr>wpc = W_while, local_count = 10000\<rparr>]\<rparr>)"
proof -
  let ?s = "send_load_start server_ip path 1 True t0"
  have "run (concat (replicate 10000 (attempt 0 t (Response 200)))) ?s =
          Some (?s\<lparr>glob := (glob ?s)\<lparr>total_requests := total_requests (glob ?s) + int 10000,
                    successful_requests := successful_requests (glob ?s) + int 10000\<rparr>,
                  stats_queue := Some ((Queue 10000)\<lparr>items := items (Queue 10000) @
                    replicate 10000 (0, 200, t)\<rparr>),
                  workers := (workers ?s)[0 := \<lparr>wpc = W_while,
                    local_count = local_count (workers ?s ! 0) + int 10000\<rparr>]\<rparr>)"
    by (rule run_responses) (simp_all add: send_load_start_def Queue_def)
  then show ?thesis
    by (simp add: send_load_start_def Queue_def)
qed

text \<open>
  A worker that waits in \<^verbatim>\<open>put\<close> on a full queue stays there whatever the threads do:
  no step of the program takes an item off the queue.
\<close>

lemma blocked_step:
  assumes "i < length (workers s)" "wpc (workers s ! i) = W_put c" "stats_queue s = Some q"
    "queue_full q" "step a s = Some s'"
  shows "i < length (workers s') \<and> wpc (workers s' ! i) = W_put c \<and> stats_queue s' = Some q"
proof (cases a)
  case (Main_step now)
  with assms main_step_glob [of now s s'] show ?thesis
    by (simp add: step_def split: if_splits)
next
  case (Reporter_step now)
  with assms reporter_step_glob [of now s s'] show ?thesis
    by (simp add: step_def split: if_splits)
next
  case (Worker_step j now r)
  with assms have w: "worker_step j now r s = Some s'"
    by (simp add: step_def split: if_splits)
  from w assms(1-4) show ?thesis
    by (cases rule: worker_stepE)
      (auto simp: set_worker_def nth_list_update queue_put_def split: outcome.splits)
next
  case Sigint
  with assms have "s' = handle_sigint s" by (simp add: step_def split: if_splits)
  with assms show ?thesis by (simp add: handle_sigint_glob)
qed

lemma blocked_run:
  assumes "i < length (workers s)" "wpc (workers s ! i) = W_put c" "stats_queue s = Some q"
    "queue_full q" "run sched s = Some s'"
  shows "i < length (workers s') \<and> wpc (workers s' ! i) = W_put c \<and> stats_queue s' = Some q"
  using assms
proof (induction sched arbitrary: s)
  case Nil
  then show ?case by simp
next
  case (Cons a sched)
  then obtain s1 where a: "step a s = Some s1" and r: "run sched s1 = Some s'"
    by (auto split: option.splits)
  from blocked_step [OF Cons.prems(1-4) a] Cons.IH [OF _ _ _ Cons.prems(4) r]
  show ?case by blast
qed

text \<open>
  The reporter's three steps of one pass, and the main thread's steps of the final
  report, when no other thread steps in between: they print what \<open>reporter_tick\<close> and
  \<open>final_report\<close> say.
\<close>

lemma reporter_tick_run:
  assumes "rpc s = R_sleep" "\<not> ended (mpc s)"
  shows "run [Reporter_step t, Reporter_step t', Reporter_step t''] s =
           Some (s\<lparr>console := console s @
                     [fst (reporter_tick t (active_count s - 1) (glob s) (rloc s))],
                   rloc := snd (reporter_tick t (active_count s - 1) (glob s) (rloc s)),
                   rpc := R_while\<rparr>)"
  using assms
  by (simp add: step_def reporter_step_def reporter_tick_def Let_def active_count_def)

lemma final_report_run:
  assumes "mpc s = M_rate"
  shows "\<exists>s'. run (replicate (if total_requests (glob s) = 0 then 5 else 9) (Main_step t)) s =
             Some s' \<and>
           console s' = console s @ fst (final_report (glob s) t) \<and>
           mpc s' = (case snd (final_report (glob s) t) of None \<Rightarrow> M_exit
                     | Some e \<Rightarrow> M_raised e) \<and>
           glob s' = glob s \<and> workers s' = workers s \<and> stats_queue s' = stats_queue s"
  using assms
  by (simp add: eval_nat_numeral step_def main_step_def print_percent_def percent_def
      truediv_def final_report_def Let_def)

lemma final_report_zero_total:
  "total_requests g = 0 \<Longrightarrow>
   final_report g t = ([Final_header, Total_line 0], Some ZeroDivisionError)"
  by (simp add: final_report_def percent_def truediv_def Let_def)




section \<open>The claims about one attempt\<close>

text \<open>
  C2, as the code has it. Every attempt in which \<^verbatim>\<open>session.get\<close> returns a response or
  raises \<^verbatim>\<open>RequestException\<close> is recorded exactly once: \<^verbatim>\<open>total_requests\<close> grows by one,
  and exactly one of \<^verbatim>\<open>successful_requests\<close> and \<^verbatim>\<open>failed_requests\<close> grows by one. It is
  the success counter exactly when a response was received with a status code in
  [200,400); every other status code and every transport failure (a raised
  \<^verbatim>\<open>RequestException\<close>) is counted as a failure. This holds with and without the
  statistics queue, and also when the iteration then waits in \<^verbatim>\<open>put\<close>. An attempt in
  which \<^verbatim>\<open>session.get\<close> raises an exception of another class is not caught by line 45:
  no counter changes, the queue is as it was, and the worker ends.
\<close>

theorem worker_iteration_records_answered_attempt:
  "total_requests (globals_of (worker_iteration thread_id r now g sq)) =
     total_requests g + (if r = Other_exception then 0 else 1) \<and>
   successful_requests (globals_of (worker_iteration thread_id r now g sq)) =
     successful_requests g + (if spec_success r then 1 else 0) \<and>
   failed_requests (globals_of (worker_iteration thread_id r now g sq)) =
     failed_requests g + (if spec_failure r then 1 else 0) \<and>
   worker_iteration thread_id Other_exception now g sq = Raised_uncaught g sq"
  by (cases r)
    (auto simp: worker_iteration_def spec_success_def spec_failure_def counter_defs Let_def
      split: option.splits)

text \<open>
  C2 as claimed fails: an attempt in which \<^verbatim>\<open>session.get\<close> raises an exception that is
  not a \<^verbatim>\<open>RequestException\<close> (with \<^verbatim>\<open>--timeout 0\<close> every request raises \<^verbatim>\<open>ValueError\<close>) is
  recorded by no counter, in the iteration and in the run of the thread, which ends.
\<close>

theorem uncaught_exception_not_recorded:
  "worker_iteration 0 Other_exception 1
     \<lparr>total_requests = 0, successful_requests = 0, failed_requests = 0, running = True,
      start_time = 0\<rparr> None =
   Raised_uncaught
     \<lparr>total_requests = 0, successful_requests = 0, failed_requests = 0, running = True,
      start_time = 0\<rparr> None \<and>
   map_option glob
     (run (attempt 0 1 Other_exception) (send_load_start ''10.0.0.1'' ''/'' 1 False 0)) =
   Some \<lparr>total_requests = 0, successful_requests = 0, failed_requests = 0, running = True,
         start_time = 0\<rparr> \<and>
   map_option workers
     (run (attempt 0 1 Other_exception) (send_load_start ''10.0.0.1'' ''/'' 1 False 0)) =
   Some [\<lparr>wpc = W_done, local_count = 0\<rparr>]"
  by (simp add: worker_iteration_def step_defs start_defs eval_nat_numeral)

text \<open>
  C10. An attempt that ends in a raised \<^verbatim>\<open>RequestException\<close> completes, adds one to
  \<^verbatim>\<open>total_requests\<close> and one to \<^verbatim>\<open>failed_requests\<close>, and leaves the statistics queue as it
  was, whether or not there is one.
\<close>

theorem worker_iteration_exception_no_event:
  "worker_iteration thread_id RequestException now g sq =
     Completed
       (g\<lparr>total_requests := total_requests g + 1, failed_requests := failed_requests g + 1\<rparr>) sq"
  by (simp add: worker_iteration_def counter_defs)

section \<open>The claims about the shared counters\<close>

text \<open>
  C1, as the code has it. In every state a run can reach, under every interleaving of
  the threads' steps, \<^verbatim>\<open>total_requests\<close> is \<^verbatim>\<open>successful_requests + failed_requests\<close> plus
  \<open>pending\<close>, which is 1 while the worker that holds \<^verbatim>\<open>stats_lock\<close> is between its two
  additions and 0 otherwise; so the equality holds whenever the lock is free, and
  between the two additions the total is ahead by one. Every answered request is
  counted exactly once: \<^verbatim>\<open>total_requests\<close> plus the number of workers that hold an answer
  not yet added is the number of requests answered in the run.
\<close>

theorem counters_account_for_answers:
  assumes "run sched (send_load_start server_ip path threads detailed now) = Some s"
  shows "total_requests (glob s) =
           successful_requests (glob s) + failed_requests (glob s) + pending s \<and>
         0 \<le> pending s \<and> pending s \<le> 1 \<and>
         (if stats_lock s = None
          then total_requests (glob s) = successful_requests (glob s) + failed_requests (glob s)
          else True) \<and>
         total_requests (glob s) + uncounted s =
           requests_answered sched (send_load_start server_ip path threads detailed now)"
proof -
  from run_inv_run [OF run_inv_start assms] have "counters_inv s"
    by (simp add: run_inv_def)
  then have "total_requests (glob s) =
      successful_requests (glob s) + failed_requests (glob s) + pending s"
    by (simp add: counters_inv_def)
  moreover have "0 \<le> pending s \<and> pending s \<le> 1"
    by (simp add: pending_def split: option.splits)
  moreover have "stats_lock s = None \<Longrightarrow> pending s = 0"
    by (simp add: pending_def)
  moreover have "uncounted (send_load_start server_ip path threads detailed now) = 0"
    "total_requests (glob (send_load_start server_ip path threads detailed now)) = 0"
    by (simp_all add: uncounted_def send_load_start_def sum_list_replicate)
  with run_answered [OF assms]
  have "total_requests (glob s) + uncounted s =
      requests_answered sched (send_load_start server_ip path threads detailed now)"
    by simp
  ultimately show ?thesis by simp
qed

text \<open>
  An instance: worker 0 completes an attempt; worker 1 is answered by an exception and
  has added to the total but not yet to the failures; worker 0 is answered again and
  waits for the lock.
\<close>

theorem counters_account_for_answers_witness:
  "\<exists>s. run (attempt 0 1 (Response 200) @
            replicate 4 (Worker_step 1 2 RequestException) @
            replicate 2 (Worker_step 0 3 (Response 404)))
         (send_load_start ''10.0.0.1'' ''/'' 2 False 0) = Some s \<and>
       total_requests (glob s) = 2 \<and> successful_requests (glob s) = 1 \<and>
       failed_requests (glob s) = 0 \<and> stats_lock s = Some 1 \<and>
       pending s = 1 \<and> uncounted s = 1 \<and>
       requests_answered
         (attempt 0 1 (Response 200) @
            replicate 4 (Worker_step 1 2 RequestException) @
            replicate 2 (Worker_step 0 3 (Response 404)))
         (send_load_start ''10.0.0.1'' ''/'' 2 False 0) = 3 \<and>
       total_requests (glob s) =
         successful_requests (glob s) + failed_requests (glob s) + pending s \<and>
       total_requests (glob s) + uncounted s = 3"
proof -
  let ?sched = "attempt 0 1 (Response 200) @
            replicate 4 (Worker_step 1 2 RequestException) @
            replicate 2 (Worker_step 0 3 (Response 404))"
  let ?init = "send_load_start ''10.0.0.1'' ''/'' 2 False 0"
  have "\<exists>s. run ?sched ?init = Some s \<and>
       total_requests (glob s) = 2 \<and> successful_requests (glob s) = 1 \<and>
       failed_requests (glob s) = 0 \<and> stats_lock s = Some 1 \<and>
       pending s = 1 \<and> uncounted s = 1"
    by (simp add: step_defs start_defs pending_def uncounted_def eval_nat_numeral)
  then obtain s where r: "run ?sched ?init = Some s"
    and v: "total_requests (glob s) = 2" "successful_requests (glob s) = 1"
      "failed_requests (glob s) = 0" "stats_lock s = Some 1" "pending s = 1" "uncounted s = 1"
    by blast
  have a: "requests_answered ?sched ?init = 3"
    by (simp add: step_defs start_defs answers_def eval_nat_numeral)
  from counters_account_for_answers [OF r] r v a show ?thesis by auto
qed

text \<open>
  C1 as claimed fails: the readers take no lock, so they observe the states in which a
  worker is between its two additions. One worker has added a response to the total
  and not yet to the successes: the counters are 1, 0 and 0. If the interrupt comes
  then and the main thread's \<^verbatim>\<open>join\<close> times out, the final report prints a total of 1
  with 0 successes and 0 failures.
\<close>

theorem counters_observed_between_additions:
  "map_option glob
     (run (replicate 4 (Worker_step 0 1 (Response 200)))
        (send_load_start ''10.0.0.1'' ''/'' 1 False 0)) =
   Some \<lparr>total_requests = 1, successful_requests = 0, failed_requests = 0, running = True,
         start_time = 0\<rparr> \<and>
   map_option console
     (run (replicate 4 (Worker_step 0 1 (Response 200)) @ Sigint # replicate 12 (Main_step 2))
        (send_load_start ''10.0.0.1'' ''/'' 1 False 0)) =
   Some [Starting_line ''10.0.0.1'' ''/'', Using_line 1, Press_line, Shutting_down_line,
         Final_header, Total_line 1, Successful_line 0 0, Failed_line 0 0, Time_line 2,
         Rate_line (1 / 2)]"
  by (simp add: step_defs start_defs eval_nat_numeral)

text \<open>
  C8. From the reset at the start of a run on, the three counters are never negative,
  and whatever the threads do next (any further schedule of worker, reporter and main
  thread steps and interrupts) leaves each counter unchanged or larger.
\<close>

theorem counters_never_decrease:
  assumes "run sched (send_load_start server_ip path threads detailed now) = Some s"
    and "run sched' s = Some s'"
  shows "0 \<le> total_requests (glob s) \<and> total_requests (glob s) \<le> total_requests (glob s') \<and>
         0 \<le> successful_requests (glob s) \<and> successful_requests (glob s) \<le> successful_requests (glob s') \<and>
         0 \<le> failed_requests (glob s) \<and> failed_requests (glob s) \<le> failed_requests (glob s')"
proof -
  from run_inv_run [OF run_inv_start assms(1)] have c: "counters_inv s"
    by (simp add: run_inv_def)
  then have "0 \<le> successful_requests (glob s)" "0 \<le> failed_requests (glob s)"
    by (simp_all add: counters_inv_def)
  moreover from c have "0 \<le> total_requests (glob s)"
    by (rule counters_inv_total_nonneg)
  ultimately show ?thesis
    using run_mono [OF assms(2)] by simp
qed

theorem counters_never_decrease_witness:
  "\<exists>s s'. run (attempt 0 1 (Response 200)) (send_load_start ''10.0.0.1'' ''/'' 2 True 0) = Some s \<and>
     run (Reporter_step 2 # attempt 1 3 RequestException @ [Sigint, Main_step 4]) s = Some s' \<and>
     total_requests (glob s) = 1 \<and> total_requests (glob s') = 2 \<and>
     0 \<le> total_requests (glob s) \<and> total_requests (glob s) \<le> total_requests (glob s') \<and>
     0 \<le> successful_requests (glob s) \<and>
     successful_requests (glob s) \<le> successful_requests (glob s') \<and>
     0 \<le> failed_requests (glob s) \<and> failed_requests (glob s) \<le> failed_requests (glob s')"
proof -
  have "\<exists>s. run (attempt 0 1 (Response 200)) (send_load_start ''10.0.0.1'' ''/'' 2 True 0) = Some s \<and>
     (\<exists>s'. run (Reporter_step 2 # attempt 1 3 RequestException @ [Sigint, Main_step 4]) s = Some s' \<and>
     total_requests (glob s) = 1 \<and> total_requests (glob s') = 2)"
    by (simp add: step_defs start_defs eval_nat_numeral)
  then obtain s s' where
    r: "run (attempt 0 1 (Response 200)) (send_load_start ''10.0.0.1'' ''/'' 2 True 0) = Some s"
    and r': "run (Reporter_step 2 # attempt 1 3 RequestException @ [Sigint, Main_step 4]) s = Some s'"
    and v: "total_requests (glob s) = 1" "total_requests (glob s') = 2"
    by blast
  from counters_never_decrease [OF r r'] r r' v show ?thesis by blast
qed


section \<open>The claims about the statistics queue\<close>

text \<open>
  C5, as the code has it. In detailed mode the worker puts an item on the queue only
  for an attempt that received a response, and it does so whatever the status code:
  also for a status code outside [200,400), which is counted as a failure. The item is
  put while the queue is not full; when the queue is full the \<^verbatim>\<open>put\<close> waits and the
  queue is unchanged. An attempt that raised, whatever the exception, puts nothing on
  the queue; without detailed mode there is no queue.
\<close>

theorem event_for_every_response:
  "queue_of (worker_iteration thread_id r now g (Some q)) =
     (case r of
        Response status_code \<Rightarrow>
          (if queue_full q then Some q
           else Some (q\<lparr>items := items q @ [(thread_id, status_code, now)]\<rparr>))
      | RequestException \<Rightarrow> Some q
      | Other_exception \<Rightarrow> Some q) \<and>
   queue_of (worker_iteration thread_id r now g None) = None"
  by (cases r) (simp_all add: worker_iteration_def queue_put_def Let_def)

text \<open>
  C5 as claimed fails: a response with status 500 is counted as a failure, and its item
  is on the queue all the same.
\<close>

theorem event_for_failed_status:
  "worker_iteration 0 (Response 500) 1
     \<lparr>total_requests = 0, successful_requests = 0, failed_requests = 0,
      running = True, start_time = 0\<rparr> (Some (Queue 10000)) =
   Completed
     \<lparr>total_requests = 1, successful_requests = 0, failed_requests = 1,
      running = True, start_time = 0\<rparr>
     (Some \<lparr>maxsize = 10000, items = [(0, 500, 1)]\<rparr>)"
  by (simp add: worker_iteration_def queue_put_def queue_full_def counter_defs Queue_def)

text \<open>
  C4, as the code has it. The worker pushes with \<^verbatim>\<open>stats_queue.put\<close> and its default
  arguments, a blocking call, after the attempt has been counted. If the queue has room
  the item is appended and the iteration completes. If the queue is full the item is not
  dropped: the worker waits inside \<^verbatim>\<open>put\<close>, its request counted. No thread of the program
  takes items off the queue, so under every further schedule the queue stays as it is
  and the worker stays in \<^verbatim>\<open>put\<close>, unable to step.
\<close>

theorem put_waits_when_full:
  assumes "i < length (workers s)" and "wpc (workers s ! i) = W_put c"
    and "stats_queue s = Some q" and "queue_full q" and "run sched s = Some s'"
  shows "worker_iteration thread_id (Response status_code) now g (Some q0) =
           (if queue_full q0 then Blocked_in_put (record_response status_code g) (Some q0)
            else Completed (record_response status_code g)
                   (Some (q0\<lparr>items := items q0 @ [(thread_id, status_code, now)]\<rparr>))) \<and>
         wpc (workers s' ! i) = W_put c \<and> stats_queue s' = Some q \<and>
         worker_step i t r s' = None"
proof -
  from blocked_run [OF assms]
  have b: "i < length (workers s')" "wpc (workers s' ! i) = W_put c" "stats_queue s' = Some q"
    by simp_all
  with assms(4) have "worker_step i t r s' = None"
    by (simp add: worker_step_def queue_put_def)
  with b show ?thesis
    by (simp add: worker_iteration_def queue_put_def)
qed

text \<open>
  An instance: worker 0 waits in \<^verbatim>\<open>put\<close> on the full queue of 10000 items; worker 1 then
  makes an attempt of its own and comes to wait as well, the reporter starts, the
  interrupt arrives and the main thread sees it. Worker 0 still waits.
\<close>

theorem put_waits_when_full_witness:
  "\<exists>s'. run [Worker_step 1 2 (Response 404), Worker_step 1 2 (Response 404),
             Worker_step 1 2 (Response 404), Worker_step 1 2 (Response 404),
             Worker_step 1 2 (Response 404), Reporter_step 2, Sigint, Main_step 3]
          \<lparr>glob = \<lparr>total_requests = 10001, successful_requests = 10001, failed_requests = 0,
                    running = True, start_time = 0\<rparr>,
           stats_lock = None,
           stats_queue = Some \<lparr>maxsize = 10000, items = replicate 10000 (0, 200, 1)\<rparr>,
           workers = [\<lparr>wpc = W_put 200, local_count = 10001\<rparr>, \<lparr>wpc = W_while, local_count = 0\<rparr>],
           rpc = R_init, rloc = unbound_reporter, mpc = M_poll, mloc = unbound_main,
           console = []\<rparr> = Some s' \<and>
      queue_full \<lparr>maxsize = 10000, items = replicate 10000 (0, 200, 1)\<rparr> \<and>
      total_requests (glob s') = 10002 \<and>
      wpc (workers s' ! 0) = W_put 200 \<and> wpc (workers s' ! 1) = W_put 404 \<and>
      stats_queue s' = Some \<lparr>maxsize = 10000, items = replicate 10000 (0, 200, 1)\<rparr> \<and>
      worker_step 0 4 RequestException s' = None \<and>
      worker_iteration 0 (Response 200) 1 (glob s') (stats_queue s') =
        Blocked_in_put (record_response 200 (glob s')) (stats_queue s')"
proof -
  let ?q = "\<lparr>maxsize = 10000, items = replicate 10000 (0::nat, 200::int, 1::real)\<rparr>"
  let ?s = "\<lparr>glob = \<lparr>total_requests = 10001, successful_requests = 10001, failed_requests = 0,
                    running = True, start_time = 0\<rparr>,
           stats_lock = None,
           stats_queue = Some ?q,
           workers = [\<lparr>wpc = W_put 200, local_count = 10001\<rparr>, \<lparr>wpc = W_while, local_count = 0\<rparr>],
           rpc = R_init, rloc = unbound_reporter, mpc = M_poll, mloc = unbound_main,
           console = []\<rparr>"
  let ?sched = "[Worker_step 1 2 (Response 404), Worker_step 1 2 (Response 404),
             Worker_step 1 2 (Response 404), Worker_step 1 2 (Response 404),
             Worker_step 1 2 (Response 404), Reporter_step 2, Sigint, Main_step 3]"
  have full: "queue_full ?q" by (simp add: queue_full_def)
  have "\<exists>s'. run ?sched ?s = Some s' \<and> total_requests (glob s') = 10002 \<and>
      wpc (workers s' ! 1) = W_put 404"
    by (simp add: step_defs unbound_reporter_def unbound_main_def)
  then obtain s' where r: "run ?sched ?s = Some s'"
    and v: "total_requests (glob s') = 10002" "wpc (workers s' ! 1) = W_put 404"
    by blast
  have h: "0 < length (workers ?s)" "wpc (workers ?s ! 0) = W_put 200" "stats_queue ?s = Some ?q"
    by simp_all
  from put_waits_when_full [OF h full r, of 0 200 1 "glob s'" ?q 4 RequestException] full
  have "worker_iteration 0 (Response 200) 1 (glob s') (Some ?q) =
          Blocked_in_put (record_response 200 (glob s')) (Some ?q) \<and>
        wpc (workers s' ! 0) = W_put 200 \<and> stats_queue s' = Some ?q \<and>
        worker_step 0 4 RequestException s' = None"
    by simp
  with r v full show ?thesis by auto
qed

text \<open>
  C4 as claimed fails: with the queue full (\<open>queue_fills_up\<close> shows how a run gets there)
  the next response is counted, and the iteration does not complete with the event
  dropped but waits in \<^verbatim>\<open>put\<close>.
\<close>

theorem put_blocks_example:
  "worker_iteration 0 (Response 200) 1
     \<lparr>total_requests = 10000, successful_requests = 10000, failed_requests = 0,
      running = True, start_time = 0\<rparr>
     (Some \<lparr>maxsize = 10000, items = replicate 10000 (0, 200, 1)\<rparr>) =
   Blocked_in_put
     \<lparr>total_requests = 10001, successful_requests = 10001, failed_requests = 0,
      running = True, start_time = 0\<rparr>
     (Some \<lparr>maxsize = 10000, items = replicate 10000 (0, 200, 1)\<rparr>)"
  by (simp add: worker_iteration_def queue_put_def queue_full_def counter_defs)

section \<open>The claims about the reporter and the final report\<close>

text \<open>
  C7. On a reporter tick, with \<open>g\<close> the globals when \<^verbatim>\<open>total_requests\<close> is read (line 61)
  and \<open>g'\<close> the globals when \<^verbatim>\<open>successful_requests\<close> is read (line 70), the values
  computed are the specification's: the instant rate is the difference of the totals
  over the elapsed time, 0 if that is not positive; the average rate is the total over
  the time since the start, 0 if that is not positive; the success rate is success over
  total times 100, 0 if the total is 0; and the remembered sample becomes the observed
  total and clock reading. The line printed holds these values. The observed total is
  not negative (it never is in a run: \<open>counters_inv_total_nonneg\<close>).
\<close>

theorem reporter_sample_formulas:
  assumes "0 \<le> total_requests g"
  shows "rps (compute_rates g' (read_total t g l)) =
           spec_instant_rate (total_requests g) (last_total l) t (last_time l) \<and>
         total_rps (compute_rates g' (read_total t g l)) =
           spec_avg_rate (total_requests g) t (start_time g') \<and>
         success_rate (compute_rates g' (read_total t g l)) =
           spec_success_rate (successful_requests g') (total_requests g) \<and>
         last_total (remember (compute_rates g' (read_total t g l))) = total_requests g \<and>
         last_time (remember (compute_rates g' (read_total t g l))) = t \<and>
         fst (reporter_tick t n g l) =
           Stats_line (total_requests g)
             (spec_instant_rate (total_requests g) (last_total l) t (last_time l))
             (spec_avg_rate (total_requests g) t (start_time g))
             (spec_success_rate (successful_requests g) (total_requests g)) n"
  using assms
  by (auto simp: compute_rates_def read_total_def remember_def spec_instant_rate_def
      spec_avg_rate_def spec_success_rate_def reporter_tick_def stats_line_def Let_def)

theorem reporter_sample_formulas_witness:
  "(0::int) \<le> 30 \<and>
   fst (reporter_tick 14 3
     \<lparr>total_requests = 30, successful_requests = 24, failed_requests = 6, running = True,
      start_time = 10\<rparr>
     \<lparr>last_total = 20, last_time = 12, current_time = 12, current_total = 20, rps = 0,
      total_rps = 0, success_rate = 0\<rparr>) = Stats_line 30 5 (15 / 2) 80 3 \<and>
   last_total (remember (compute_rates
     \<lparr>total_requests = 30, successful_requests = 24, failed_requests = 6, running = True,
      start_time = 10\<rparr>
     (read_total 14
        \<lparr>total_requests = 30, successful_requests = 24, failed_requests = 6, running = True,
         start_time = 10\<rparr>
        \<lparr>last_total = 20, last_time = 12, current_time = 12, current_total = 20, rps = 0,
         total_rps = 0, success_rate = 0\<rparr>))) = 30 \<and>
   last_time (remember (compute_rates
     \<lparr>total_requests = 30, successful_requests = 24, failed_requests = 6, running = True,
      start_time = 10\<rparr>
     (read_total 14
        \<lparr>total_requests = 30, successful_requests = 24, failed_requests = 6, running = True,
         start_time = 10\<rparr>
        \<lparr>last_total = 20, last_time = 12, current_time = 12, current_total = 20, rps = 0,
         total_rps = 0, success_rate = 0\<rparr>))) = 14"
  using reporter_sample_formulas
    [of "\<lparr>total_requests = 30, successful_requests = 24, failed_requests = 6, running = True,
          start_time = 10\<rparr>"
        "\<lparr>total_requests = 30, successful_requests = 24, failed_requests = 6, running = True,
          start_time = 10\<rparr>" 14
        "\<lparr>last_total = 20, last_time = 12, current_time = 12, current_total = 20, rps = 0,
          total_rps = 0, success_rate = 0\<rparr>" 3]
  by (simp add: spec_instant_rate_def spec_avg_rate_def spec_success_rate_def)

text \<open>
  C9, as the code has it. No read of a counter takes \<^verbatim>\<open>stats_lock\<close>: the reporter and the
  final report read each global on its own, at different instants, so the values one
  report combines need not come from one state. What holds in every state of a run,
  under every interleaving: \<^verbatim>\<open>successful_requests + failed_requests\<close> is
  \<^verbatim>\<open>total_requests\<close> or one less (one less only while a worker is between its two
  additions), and the total the reporter holds between its read and its \<^verbatim>\<open>print\<close> is
  not negative and not more than the current total.
\<close>

theorem unlocked_reads_bounds:
  assumes "run sched (send_load_start server_ip path threads detailed now) = Some s"
  shows "successful_requests (glob s) + failed_requests (glob s) \<le> total_requests (glob s) \<and>
         total_requests (glob s) \<le> successful_requests (glob s) + failed_requests (glob s) + 1 \<and>
         (if rpc s = R_rates \<or> rpc s = R_print
          then 0 \<le> current_total (rloc s) \<and> current_total (rloc s) \<le> total_requests (glob s)
          else True)"
proof -
  from run_inv_run [OF run_inv_start assms] have "counters_inv s" "reporter_inv s"
    by (simp_all add: run_inv_def)
  then show ?thesis
    by (auto simp: counters_inv_def reporter_inv_def pending_def split: option.splits)
qed

text \<open>
  An instance: the reporter has read a total of 1; before it reads the success count a
  worker records a second success.
\<close>

theorem unlocked_reads_bounds_witness:
  "\<exists>s. run (attempt 0 1 (Response 200) @
           [Reporter_step 0, Reporter_step 0, Reporter_step 1] @
           attempt 0 1 (Response 200))
        (send_load_start ''10.0.0.1'' ''/'' 1 False 0) = Some s \<and>
       rpc s = R_rates \<and> current_total (rloc s) = 1 \<and>
       total_requests (glob s) = 2 \<and> successful_requests (glob s) = 2 \<and>
       failed_requests (glob s) = 0 \<and>
       successful_requests (glob s) + failed_requests (glob s) \<le> total_requests (glob s) \<and>
       total_requests (glob s) \<le> successful_requests (glob s) + failed_requests (glob s) + 1 \<and>
       0 \<le> current_total (rloc s) \<and> current_total (rloc s) \<le> total_requests (glob s)"
proof -
  let ?sched = "attempt 0 1 (Response 200) @
           [Reporter_step 0, Reporter_step 0, Reporter_step 1] @
           attempt 0 1 (Response 200)"
  have "\<exists>s. run ?sched (send_load_start ''10.0.0.1'' ''/'' 1 False 0) = Some s \<and>
       rpc s = R_rates \<and> current_total (rloc s) = 1 \<and>
       total_requests (glob s) = 2 \<and> successful_requests (glob s) = 2 \<and>
       failed_requests (glob s) = 0"
    by (simp add: step_defs start_defs eval_nat_numeral)
  then obtain s where r: "run ?sched (send_load_start ''10.0.0.1'' ''/'' 1 False 0) = Some s"
    and v: "rpc s = R_rates" "current_total (rloc s) = 1" "total_requests (glob s) = 2"
      "successful_requests (glob s) = 2" "failed_requests (glob s) = 0"
    by blast
  from unlocked_reads_bounds [OF r] v
  have "successful_requests (glob s) + failed_requests (glob s) \<le> total_requests (glob s) \<and>
       total_requests (glob s) \<le> successful_requests (glob s) + failed_requests (glob s) + 1 \<and>
       0 \<le> current_total (rloc s) \<and> current_total (rloc s) \<le> total_requests (glob s)"
    by simp
  with r v show ?thesis by blast
qed

text \<open>
  C9 as claimed fails. One worker, one recorded success, then a second request in
  flight; the interrupt; the main thread's \<^verbatim>\<open>join\<close> times out and it prints the
  total, 1; the worker's second response is recorded; the main thread prints the
  success count, 2, and 100 percent. The final report is not a snapshot of any one
  state.
\<close>

theorem final_report_not_a_snapshot:
  "map_option console
     (run (attempt 0 1 (Response 200) @
           [Worker_step 0 1 (Response 200), Sigint,
            Main_step 2, Main_step 2, Main_step 2, Main_step 2, Main_step 2,
            Worker_step 0 2 (Response 200), Worker_step 0 2 (Response 200),
            Worker_step 0 2 (Response 200), Worker_step 0 2 (Response 200),
            Main_step 2, Main_step 2, Main_step 2, Main_step 2, Main_step 2, Main_step 2,
            Main_step 2])
        (send_load_start ''10.0.0.1'' ''/'' 1 False 0)) =
   Some [Starting_line ''10.0.0.1'' ''/'', Using_line 1, Press_line, Shutting_down_line,
         Final_header, Total_line 1, Successful_line 2 100, Failed_line 0 0, Time_line 2,
         Rate_line (1 / 2)]"
  by (simp add: step_defs start_defs eval_nat_numeral)

text \<open>
  The same in the reporter: it reads a total of 1, a second success is recorded, and it
  reports a success rate of 200 percent.
\<close>

lemma reporter_sample_torn:
  "map_option console
     (run (attempt 0 1 (Response 200) @
           [Reporter_step 0, Reporter_step 0, Reporter_step 1] @
           attempt 0 1 (Response 200) @
           [Reporter_step 1, Reporter_step 1])
        (send_load_start ''10.0.0.1'' ''/'' 1 False 0)) =
   Some [Starting_line ''10.0.0.1'' ''/'', Using_line 1, Press_line, Stats_line 1 1 1 200 2]"
  by (simp add: step_defs start_defs eval_nat_numeral)

text \<open>
  C3. With \<^verbatim>\<open>total_requests\<close> at 0 the final report does not print zeros: line 150
  divides by \<^verbatim>\<open>total_requests\<close> without a guard and raises \<^verbatim>\<open>ZeroDivisionError\<close> after
  the header and the total have been printed. The second part is a whole run: one
  worker whose first request is still in flight, the interrupt, and the main thread's
  steps to the exception.
\<close>

theorem final_report_divides_by_zero:
  "final_report
     \<lparr>total_requests = 0, successful_requests = 0, failed_requests = 0, running = False,
      start_time = 0\<rparr> 1 =
     ([Final_header, Total_line 0], Some ZeroDivisionError) \<and>
   map_option (\<lambda>s. (mpc s, console s))
     (run (Worker_step 0 0 RequestException # Sigint # replicate 8 (Main_step 1))
        (send_load_start ''10.0.0.1'' ''/'' 1 False 0)) =
     Some (M_raised ZeroDivisionError,
           [Starting_line ''10.0.0.1'' ''/'', Using_line 1, Press_line, Shutting_down_line,
            Final_header, Total_line 0])"
  by (simp add: final_report_def step_defs start_defs eval_nat_numeral)

section \<open>The claim about the interrupt\<close>



end
